theory Spec2Isabelle
  imports Main
begin

section \<open>Promises and the Redis client\<close>

text \<open>
  The class \<open>RedisCache\<close> (file \<open>redis.ts\<close>) wraps a node-redis client.
  Every client command returns a promise. A promise that has settled is either
  fulfilled with a value or rejected with an error; the promise returned by
  \<open>onChange\<close> can also still be pending, which is \<open>None\<close> in its state below.
\<close>

datatype error = StoreUnavailable | ReplyError | FormatError

datatype 'a settled = Fulfilled 'a | Rejected error

text \<open>
  \<open>p.then(f)\<close>: the callback runs on the fulfilment value; a callback that throws
  rejects the resulting promise, a rejection passes through.
\<close>

definition then_promise :: "'a settled \<Rightarrow> ('a \<Rightarrow> error + 'b) \<Rightarrow> 'b settled" where
  "then_promise p f =
     (case p of
        Rejected e \<Rightarrow> Rejected e
      | Fulfilled x \<Rightarrow> (case f x of Inl e \<Rightarrow> Rejected e | Inr y \<Rightarrow> Fulfilled y))"

text \<open>
  \<open>deasyncPromise(p)\<close> blocks until the promise settles, then returns its value or
  throws its rejection (\<open>Inl\<close>).
\<close>

definition deasyncPromise :: "'a settled \<Rightarrow> error + 'a" where
  "deasyncPromise p = (case p of Fulfilled x \<Rightarrow> Inr x | Rejected e \<Rightarrow> Inl e)"

text \<open>
  The store behind the client: whether the connection is up, the store's clock in
  seconds, and for each storage key its payload with the time at which it expires, if
  any. An entry is live while the clock is before its expiry time.
\<close>

record redis =
  connected :: bool
  now :: nat
  entries :: "string \<Rightarrow> (string \<times> nat option) option"

definition live :: "redis \<Rightarrow> string \<Rightarrow> string option" where
  "live r k =
     (case entries r k of
        None \<Rightarrow> None
      | Some (v, d) \<Rightarrow>
          (case d of
             None \<Rightarrow> Some v
           | Some t \<Rightarrow> if now r < t then Some v else None))"

text \<open>
  The four client commands the class uses, with the replies Redis documents for them:
  GET replies the payload or nil; EXISTS and DEL reply the number of keys found or
  removed; SET replies \<open>OK\<close>, or nil when NX is given and the key is live, and rejects a
  non-positive EX. A command on a lost connection rejects. A command is one atomic step
  on the store.
\<close>

definition client_get :: "redis \<Rightarrow> string \<Rightarrow> string option settled" where
  "client_get r k = (if connected r then Fulfilled (live r k) else Rejected StoreUnavailable)"

definition client_exists :: "redis \<Rightarrow> string \<Rightarrow> int settled" where
  "client_exists r k =
     (if connected r then Fulfilled (case live r k of None \<Rightarrow> 0 | Some _ \<Rightarrow> 1)
      else Rejected StoreUnavailable)"

definition client_del :: "redis \<Rightarrow> string \<Rightarrow> int settled \<times> redis" where
  "client_del r k =
     (if connected r then
        (Fulfilled (case live r k of None \<Rightarrow> 0 | Some _ \<Rightarrow> 1),
         r\<lparr>entries := (entries r)(k := None)\<rparr>)
      else (Rejected StoreUnavailable, r))"

definition valid_EX :: "int option \<Rightarrow> bool" where
  "valid_EX ex = (case ex of None \<Rightarrow> True | Some n \<Rightarrow> 0 < n)"

definition client_set ::
  "redis \<Rightarrow> string \<Rightarrow> string \<Rightarrow> int option \<Rightarrow> bool \<Rightarrow> string option settled \<times> redis" where
  "client_set r k v ex nx =
     (if \<not> connected r then (Rejected StoreUnavailable, r)
      else if \<not> valid_EX ex then (Rejected ReplyError, r)
      else if nx \<and> live r k \<noteq> None then (Fulfilled None, r)
      else (Fulfilled (Some ''OK''),
            r\<lparr>entries := (entries r)(k \<mapsto> (v, map_option (\<lambda>n. now r + nat n) ex))\<rparr>))"

section \<open>RedisCache\<close>

text \<open>\<open>namespace || "default"\<close>: an undefined and an empty namespace both give the default.\<close>

definition default_ns :: "string option \<Rightarrow> string" where
  "default_ns namespace =
     (case namespace of None \<Rightarrow> ''default'' | Some n \<Rightarrow> if n = [] then ''default'' else n)"

text \<open>The template string \<open>`${namespace}:${key}`\<close>.\<close>

definition prefixed :: "string \<Rightarrow> string \<Rightarrow> string" where
  "prefixed namespace key = namespace @ '':'' @ key"

text \<open>What a read returns: the raw payload, or the instance built by the class constructor.\<close>

datatype 't cached = Raw string | Instance 't

text \<open>
  \<open>plainToInstance(classConstructor(), JSON.parse(result))\<close> is the parameter
  \<open>classConstructor\<close>: a function of the payload that may throw (\<open>None\<close>).
\<close>

type_synonym 't deserializer = "string \<Rightarrow> 't option"

definition exists :: "string \<Rightarrow> string option \<Rightarrow> redis \<Rightarrow> bool settled" where
  "exists key namespace r =
     (let namespace = default_ns namespace; key = prefixed namespace key in
      then_promise (client_exists r key) (\<lambda>result. Inr (result = 1)))"

definition remove_key :: "string \<Rightarrow> string option \<Rightarrow> redis \<Rightarrow> bool settled \<times> redis" where
  "remove_key key namespace r =
     (let namespace = default_ns namespace; key = prefixed namespace key;
          (p, r') = client_del r key in
      (then_promise p (\<lambda>result. Inr (result = 1)), r'))"

text \<open>The body of the \<open>then\<close> callback shared, as text, by \<open>get\<close> and \<open>getSync\<close>.\<close>

definition get ::
  "string \<Rightarrow> string option \<Rightarrow> 't deserializer option \<Rightarrow> redis \<Rightarrow> 't cached option settled" where
  "get key namespace classConstructor r =
     (let namespace = default_ns namespace; key = prefixed namespace key in
      then_promise (client_get r key) (\<lambda>result.
        case result of
          None \<Rightarrow> Inr None
        | Some s \<Rightarrow>
            if s = [] then Inr None
            else (case classConstructor of
                    Some parse \<Rightarrow>
                      (case parse s of None \<Rightarrow> Inl FormatError | Some x \<Rightarrow> Inr (Some (Instance x)))
                  | None \<Rightarrow> Inr (Some (Raw s)))))"

definition getSync ::
  "string \<Rightarrow> string option \<Rightarrow> 't deserializer option \<Rightarrow> redis \<Rightarrow> error + 't cached option" where
  "getSync key namespace classConstructor r =
     (let namespace = default_ns namespace; key = prefixed namespace key in
      deasyncPromise (then_promise (client_get r key) (\<lambda>result.
        case result of
          None \<Rightarrow> Inr None
        | Some s \<Rightarrow>
            if s = [] then Inr None
            else (case classConstructor of
                    Some parse \<Rightarrow>
                      (case parse s of None \<Rightarrow> Inl FormatError | Some x \<Rightarrow> Inr (Some (Instance x)))
                  | None \<Rightarrow> Inr (Some (Raw s))))))"

text \<open>
  The callback of the three writes: \<open>if (result) return result === "OK"; return false\<close>,
  where an empty reply is as falsy as nil.
\<close>

definition set_reply :: "string option \<Rightarrow> error + bool" where
  "set_reply result =
     (case result of None \<Rightarrow> Inr False | Some s \<Rightarrow> if s = [] then Inr False else Inr (s = ''OK''))"

definition set_key ::
  "string \<Rightarrow> string \<Rightarrow> string option \<Rightarrow> int option \<Rightarrow> redis \<Rightarrow> bool settled \<times> redis" where
  "set_key key v namespace expireSeconds r =
     (let namespace = default_ns namespace; key = prefixed namespace key;
          (p, r') = client_set r key v expireSeconds False in
      (then_promise p set_reply, r'))"

definition setIfNotExist ::
  "string \<Rightarrow> string \<Rightarrow> string option \<Rightarrow> int option \<Rightarrow> redis \<Rightarrow> bool settled \<times> redis" where
  "setIfNotExist key v namespace expireSeconds r =
     (let namespace = default_ns namespace; key = prefixed namespace key;
          (p, r') = client_set r key v expireSeconds True in
      (then_promise p set_reply, r'))"

definition setSync ::
  "string \<Rightarrow> string \<Rightarrow> string option \<Rightarrow> int option \<Rightarrow> redis \<Rightarrow> (error + bool) \<times> redis" where
  "setSync key v namespace expireSeconds r =
     (let namespace = default_ns namespace; key = prefixed namespace key;
          (p, r') = client_set r key v expireSeconds False in
      (deasyncPromise (then_promise p set_reply), r'))"

section \<open>onChange\<close>

text \<open>
  One call of \<open>onChange\<close> owns a promise, a subscriber and a timer. Its state: the
  channel subscribed to, the timer's delay, the promise (\<open>None\<close> while pending), whether
  the subscriber is still subscribed, how often \<open>subscriber.quit()\<close> was called, whether
  the timer has yet to fire, and the storage keys of the reads the call has issued.
  The source never calls \<open>clearTimeout\<close>, so only the timer's firing disarms it.
\<close>

record 't wait =
  channel :: string
  delay_ms :: nat
  outcome :: "'t cached option settled option"
  subscribed :: bool
  quit_calls :: nat
  timer_armed :: bool
  reads :: "string list"

text \<open>\<open>resolve(x)\<close> settles a pending promise and does nothing to a settled one.\<close>

definition resolve :: "'t cached option settled \<Rightarrow> 't wait \<Rightarrow> 't wait" where
  "resolve x w = (case outcome w of None \<Rightarrow> w\<lparr>outcome := Some x\<rparr> | Some _ \<Rightarrow> w)"

definition quit :: "'t wait \<Rightarrow> 't wait" where
  "quit w = w\<lparr>subscribed := False, quit_calls := Suc (quit_calls w)\<rparr>"

text \<open>
  \<open>this.get(key, namespace, classConstructor)\<close> as a handler calls it: the read is
  issued, and logged under the storage key that \<open>get\<close> builds from its arguments.
\<close>

definition this_get ::
  "string \<Rightarrow> string option \<Rightarrow> 't deserializer option \<Rightarrow> redis \<Rightarrow> 't wait
   \<Rightarrow> 't cached option settled \<times> 't wait" where
  "this_get key namespace classConstructor r w =
     (get key namespace classConstructor r,
      w\<lparr>reads := reads w @ [prefixed (default_ns namespace) key]\<rparr>)"

text \<open>
  The start of \<open>onChange\<close>: \<open>namespace\<close> and \<open>key\<close> are reassigned, the subscriber
  subscribes to the key-space channel of the reassigned key, the timer is set.
\<close>

definition onChange :: "string \<Rightarrow> nat \<Rightarrow> string option \<Rightarrow> 't wait" where
  "onChange key waitSeconds namespace =
     (let namespace = default_ns namespace; key = prefixed namespace key in
      \<lparr>channel = ''__keyspace@0__:'' @ key, delay_ms = waitSeconds * 1000,
       outcome = None, subscribed = True, quit_calls = 0, timer_armed = True, reads = []\<rparr>)"

text \<open>
  The subscriber's listener and the timer's callback. Both close over the reassigned
  \<open>namespace\<close> and \<open>key\<close>, and pass these to \<open>this.get\<close>.
\<close>

definition listener ::
  "string \<Rightarrow> string option \<Rightarrow> 't deserializer option \<Rightarrow> redis \<Rightarrow> string \<Rightarrow> 't wait \<Rightarrow> 't wait" where
  "listener key namespace classConstructor r message w =
     (let namespace = default_ns namespace; key = prefixed namespace key in
      if message = ''set'' then
        (let (p, w') = this_get key (Some namespace) classConstructor r w in quit (resolve p w'))
      else if message = ''del'' \<or> message = ''expire'' then quit (resolve (Fulfilled None) w)
      else w)"

definition timeout_callback ::
  "string \<Rightarrow> string option \<Rightarrow> 't deserializer option \<Rightarrow> redis \<Rightarrow> 't wait \<Rightarrow> 't wait" where
  "timeout_callback key namespace classConstructor r w =
     (let namespace = default_ns namespace; key = prefixed namespace key;
          (p, w') = this_get key (Some namespace) classConstructor r w in
      quit (resolve p w'))"

text \<open>
  What can happen while a call is in flight: a message is published on a channel, the
  timer fires, another caller writes or removes an entry, time passes, the connection is
  lost. A message reaches the listener only while the subscriber is subscribed, and only
  on its channel; the timer fires once.
\<close>

definition elapse :: "nat \<Rightarrow> redis \<Rightarrow> redis" where
  "elapse d r = r\<lparr>now := now r + d\<rparr>"

datatype event =
    Message string string
  | TimerFires
  | CallerSet string string "string option" "int option"
  | CallerRemove string "string option"
  | Elapse nat
  | ConnectionLost

fun step ::
  "string \<Rightarrow> string option \<Rightarrow> 't deserializer option \<Rightarrow> event \<Rightarrow> redis \<times> 't wait
   \<Rightarrow> redis \<times> 't wait" where
  "step key namespace cc (Message ch message) (r, w) =
     (r, if subscribed w \<and> ch = channel w then listener key namespace cc r message w else w)"
| "step key namespace cc TimerFires (r, w) =
     (r, if timer_armed w then timeout_callback key namespace cc r (w\<lparr>timer_armed := False\<rparr>)
         else w)"
| "step key namespace cc (CallerSet k v ns ttl) (r, w) = (snd (set_key k v ns ttl r), w)"
| "step key namespace cc (CallerRemove k ns) (r, w) = (snd (remove_key k ns r), w)"
| "step key namespace cc (Elapse d) (r, w) = (elapse d r, w)"
| "step key namespace cc ConnectionLost (r, w) = (r\<lparr>connected := False\<rparr>, w)"

fun run ::
  "string \<Rightarrow> string option \<Rightarrow> 't deserializer option \<Rightarrow> event list \<Rightarrow> redis \<times> 't wait
   \<Rightarrow> redis \<times> 't wait" where
  "run key namespace cc [] s = s"
| "run key namespace cc (e # es) s = run key namespace cc es (step key namespace cc e s)"

text \<open>An empty store with the connection up.\<close>

definition empty_store :: redis where
  "empty_store = \<lparr>connected = True, now = 0, entries = (\<lambda>k. None)\<rparr>"

text \<open>
  Two names used in the examples: the channel watched by \<open>onChange("k", ...)\<close> without a
  namespace, and a call without class constructor.
\<close>

abbreviation channel_k :: string where
  "channel_k \<equiv> ''__keyspace@0__:default:k''"

abbreviation no_constructor :: "nat deserializer option" where
  "no_constructor \<equiv> None"

text \<open>
  What every reachable state of a call satisfies: the promise is pending exactly while the
  subscriber is subscribed, the subscriber is subscribed exactly until the first
  \<open>quit\<close>, and a timer that has fired has left the promise settled.
\<close>

definition wait_inv :: "'t wait \<Rightarrow> bool" where
  "wait_inv w =
     ((outcome w = None) = subscribed w \<and> subscribed w = (quit_calls w = 0)
      \<and> (timer_armed w \<or> outcome w \<noteq> None))"

section \<open>Auxiliary facts\<close>

lemmas cache_defs =
  onChange_def listener_def timeout_callback_def this_get_def resolve_def quit_def
  get_def exists_def set_key_def setIfNotExist_def remove_key_def set_reply_def
  client_get_def client_set_def client_del_def client_exists_def valid_EX_def live_def
  then_promise_def default_ns_def prefixed_def empty_store_def elapse_def Let_def

lemma outcome_resolve:
  "outcome (resolve x w) = (case outcome w of None \<Rightarrow> Some x | Some y \<Rightarrow> Some y)"
  by (simp add: resolve_def split: option.split)

lemma resolve_fields:
  "subscribed (resolve x w) = subscribed w" "quit_calls (resolve x w) = quit_calls w"
  "timer_armed (resolve x w) = timer_armed w" "reads (resolve x w) = reads w"
  "channel (resolve x w) = channel w"
  by (simp_all add: resolve_def split: option.split)

lemma quit_fields:
  "outcome (quit w) = outcome w" "subscribed (quit w) = False"
  "quit_calls (quit w) = Suc (quit_calls w)" "timer_armed (quit w) = timer_armed w"
  "reads (quit w) = reads w" "channel (quit w) = channel w"
  by (simp_all add: quit_def)

lemma this_get_fields:
  "fst (this_get k n cc r w) = get k n cc r"
  "outcome (snd (this_get k n cc r w)) = outcome w"
  "subscribed (snd (this_get k n cc r w)) = subscribed w"
  "quit_calls (snd (this_get k n cc r w)) = quit_calls w"
  "timer_armed (snd (this_get k n cc r w)) = timer_armed w"
  "channel (snd (this_get k n cc r w)) = channel w"
  "reads (snd (this_get k n cc r w)) = reads w @ [prefixed (default_ns n) k]"
  by (simp_all add: this_get_def)

lemmas wait_simps = outcome_resolve resolve_fields quit_fields this_get_fields

lemma listener_set:
  "listener key ns cc r ''set'' w =
     quit (resolve (get (prefixed (default_ns ns) key) (Some (default_ns ns)) cc r)
       (snd (this_get (prefixed (default_ns ns) key) (Some (default_ns ns)) cc r w)))"
  by (simp add: listener_def Let_def this_get_def)

lemma listener_removed:
  "message = ''del'' \<or> message = ''expire'' \<Longrightarrow>
     listener key ns cc r message w = quit (resolve (Fulfilled None) w)"
  by (auto simp add: listener_def Let_def)

lemma listener_other:
  "message \<noteq> ''set'' \<Longrightarrow> message \<noteq> ''del'' \<Longrightarrow> message \<noteq> ''expire'' \<Longrightarrow>
     listener key ns cc r message w = w"
  by (simp add: listener_def Let_def)

lemma timeout_callback_eq:
  "timeout_callback key ns cc r w =
     quit (resolve (get (prefixed (default_ns ns) key) (Some (default_ns ns)) cc r)
       (snd (this_get (prefixed (default_ns ns) key) (Some (default_ns ns)) cc r w)))"
  by (simp add: timeout_callback_def Let_def this_get_def)


lemma set_key_fulfilled:
  "fst (set_key key v ns ttl r) = Fulfilled b \<Longrightarrow> connected r \<and> valid_EX ttl \<and> b"
  by (auto simp add: set_key_def Let_def client_set_def then_promise_def set_reply_def
      split: if_splits)

lemma set_key_store:
  "connected r \<Longrightarrow> valid_EX ttl \<Longrightarrow>
     snd (set_key key v ns ttl r) =
       r\<lparr>entries := (entries r)(prefixed (default_ns ns) key \<mapsto>
            (v, map_option (\<lambda>n. now r + nat n) ttl))\<rparr>"
  by (simp add: set_key_def Let_def client_set_def)

lemma live_after_write:
  assumes "valid_EX ttl" and "case ttl of None \<Rightarrow> True | Some n \<Rightarrow> int d < n"
  shows "live (r\<lparr>entries := (entries r)(k \<mapsto> (v, map_option (\<lambda>n. now r + nat n) ttl)),
                 now := now r + d\<rparr>) k = Some v"
  using assms by (cases ttl) (auto simp add: live_def valid_EX_def)

lemma live_set_key:
  "connected r \<Longrightarrow> valid_EX ttl \<Longrightarrow>
     live (snd (set_key key v ns ttl r)) (prefixed (default_ns ns) key) = Some v"
  by (cases ttl) (simp_all add: set_key_store live_def valid_EX_def)

lemma get_of_live:
  "connected r \<Longrightarrow> live r (prefixed (default_ns ns) key) = Some v \<Longrightarrow> v \<noteq> [] \<Longrightarrow>
     get key ns cc r =
       (case cc of
          None \<Rightarrow> Fulfilled (Some (Raw v))
        | Some parse \<Rightarrow>
            (case parse v of None \<Rightarrow> Rejected FormatError
             | Some x \<Rightarrow> Fulfilled (Some (Instance x))))"
  by (simp add: get_def Let_def client_get_def then_promise_def split: option.split)

lemma get_of_empty:
  "connected r \<Longrightarrow> live r (prefixed (default_ns ns) key) = Some [] \<Longrightarrow>
     get key ns cc r = Fulfilled None"
  by (simp add: get_def Let_def client_get_def then_promise_def)

lemma exists_of_live:
  "connected r \<Longrightarrow> live r (prefixed (default_ns ns) key) = Some v \<Longrightarrow>
     exists key ns r = Fulfilled True"
  by (simp add: exists_def Let_def client_exists_def then_promise_def)

lemma setIfNotExist_absent:
  "connected r \<Longrightarrow> valid_EX ttl \<Longrightarrow> live r (prefixed (default_ns ns) key) = None \<Longrightarrow>
     setIfNotExist key v ns ttl r =
       (Fulfilled True,
        r\<lparr>entries := (entries r)(prefixed (default_ns ns) key \<mapsto>
             (v, map_option (\<lambda>n. now r + nat n) ttl))\<rparr>)"
  by (simp add: setIfNotExist_def Let_def client_set_def then_promise_def set_reply_def)

lemma setIfNotExist_present:
  "connected r \<Longrightarrow> valid_EX ttl \<Longrightarrow> live r (prefixed (default_ns ns) key) = Some u \<Longrightarrow>
     setIfNotExist key v ns ttl r = (Fulfilled False, r)"
  by (simp add: setIfNotExist_def Let_def client_set_def then_promise_def set_reply_def)

lemma step_outcome_stable:
  "outcome w = Some x \<Longrightarrow> outcome (snd (step key ns cc e (r, w))) = Some x"
proof (cases e)
  case (Message ch m)
  assume "outcome w = Some x"
  then have "outcome (listener key ns cc r m w) = Some x"
    by (cases "m = ''set''"; cases "m = ''del'' \<or> m = ''expire''")
       (simp_all add: listener_set listener_removed listener_other wait_simps)
  then show ?thesis using \<open>outcome w = Some x\<close> Message by simp
qed (simp_all add: timeout_callback_eq wait_simps)

lemma listener_invariant: "wait_inv w \<Longrightarrow> wait_inv (listener key ns cc r m w)"
  by (cases "m = ''set''"; cases "m = ''del'' \<or> m = ''expire''")
     (auto simp add: wait_inv_def listener_set listener_removed listener_other wait_simps
        split: option.split)

lemma step_invariant: "wait_inv w \<Longrightarrow> wait_inv (snd (step key ns cc e (r, w)))"
proof (cases e)
  case (Message ch m)
  assume "wait_inv w"
  then show ?thesis using Message by (simp add: listener_invariant)
next
  case TimerFires
  assume "wait_inv w"
  then show ?thesis using TimerFires
    by (auto simp add: wait_inv_def timeout_callback_eq wait_simps split: option.split)
qed simp_all

lemma step_timer:
  "timer_armed (snd (step key ns cc e (r, w))) = (timer_armed w \<and> e \<noteq> TimerFires)"
proof (cases e)
  case (Message ch m)
  have "timer_armed (listener key ns cc r m w) = timer_armed w"
    by (cases "m = ''set''"; cases "m = ''del'' \<or> m = ''expire''")
       (simp_all add: listener_set listener_removed listener_other wait_simps)
  then show ?thesis using Message by simp
qed (simp_all add: timeout_callback_eq wait_simps)

lemma run_outcome_stable:
  "outcome (snd s) = Some x \<Longrightarrow> outcome (snd (run key ns cc es s)) = Some x"
proof (induction es arbitrary: s)
  case Nil
  then show ?case by simp
next
  case (Cons e es)
  obtain r w where s: "s = (r, w)" by (cases s)
  with Cons.prems have "outcome (snd (step key ns cc e s)) = Some x"
    by (simp only: s snd_conv step_outcome_stable)
  then show ?case by (simp add: Cons.IH)
qed

lemma run_invariant: "wait_inv (snd s) \<Longrightarrow> wait_inv (snd (run key ns cc es s))"
proof (induction es arbitrary: s)
  case Nil
  then show ?case by simp
next
  case (Cons e es)
  obtain r w where s: "s = (r, w)" by (cases s)
  from Cons.prems have "wait_inv (snd (step key ns cc e (r, w)))"
    unfolding s snd_conv by (rule step_invariant)
  then show ?case using Cons.IH [of "step key ns cc e (r, w)"] by (simp add: s)
qed

lemma run_timer:
  "timer_armed (snd (run key ns cc es s)) = (timer_armed (snd s) \<and> TimerFires \<notin> set es)"
proof (induction es arbitrary: s)
  case Nil
  then show ?case by simp
next
  case (Cons e es)
  obtain r w where s: "s = (r, w)" by (cases s)
  show ?case using step_timer [of key ns cc e r w] by (auto simp add: Cons.IH s)
qed

lemma onChange_fields:
  "outcome (onChange key secs ns) = None" "subscribed (onChange key secs ns)"
  "quit_calls (onChange key secs ns) = 0" "timer_armed (onChange key secs ns)"
  "reads (onChange key secs ns) = []"
  "channel (onChange key secs ns) = ''__keyspace@0__:'' @ prefixed (default_ns ns) key"
  by (simp_all add: onChange_def Let_def)

lemma quiet_step:
  assumes "e \<noteq> TimerFires"
    and "\<forall>ch m. e = Message ch m \<longrightarrow> m \<notin> {''set'', ''del'', ''expire''}"
  shows "snd (step key ns cc e (r, w)) = w"
proof (cases e)
  case (Message ch m)
  with assms(2) have "m \<noteq> ''set''" "m \<noteq> ''del''" "m \<noteq> ''expire''" by auto
  then show ?thesis using Message by (simp add: listener_other)
qed (use assms(1) in simp_all)

lemma quiet_run:
  assumes "\<forall>e \<in> set es. e \<noteq> TimerFires
             \<and> (\<forall>ch m. e = Message ch m \<longrightarrow> m \<notin> {''set'', ''del'', ''expire''})"
  shows "snd (run key ns cc es s) = snd s"
  using assms
proof (induction es arbitrary: s)
  case Nil
  then show ?case by simp
next
  case (Cons e es)
  obtain r w where s: "s = (r, w)" by (cases s)
  have "snd (step key ns cc e (r, w)) = w"
    using Cons.prems by (intro quiet_step) simp_all
  then show ?case using Cons by (simp add: s)
qed

lemma message_resolves:
  assumes "outcome w = None" and "outcome (snd (step key ns cc (Message ch m) (r, w))) \<noteq> None"
  shows "m \<in> {''set'', ''del'', ''expire''}"
proof (rule ccontr)
  assume "m \<notin> {''set'', ''del'', ''expire''}"
  then have "snd (step key ns cc (Message ch m) (r, w)) = w"
    by (intro quiet_step) simp_all
  with assms show False by simp
qed

lemma timer_settles:
  "timer_armed w \<Longrightarrow> outcome (snd (step key ns cc TimerFires (r, w))) \<noteq> None"
  by (simp add: timeout_callback_eq wait_simps split: option.split)

lemma getSync_eq: "getSync key ns cc r = deasyncPromise (get key ns cc r)"
  by (simp add: getSync_def get_def Let_def)

lemma setSync_eq:
  "setSync key v ns ttl r =
     (deasyncPromise (fst (set_key key v ns ttl r)), snd (set_key key v ns ttl r))"
  by (simp add: setSync_def set_key_def Let_def split: prod.split)

lemma deasyncPromise_Inr: "(deasyncPromise p = Inr x) = (p = Fulfilled x)"
  by (cases p) (simp_all add: deasyncPromise_def)

lemma deasyncPromise_Inl: "(deasyncPromise p = Inl e) = (p = Rejected e)"
  by (cases p) (simp_all add: deasyncPromise_def)

lemma setIfNotExist_returns:
  "(\<exists>b. fst (setIfNotExist key v ns ttl r) = Fulfilled b) = (connected r \<and> valid_EX ttl)"
  by (auto simp add: setIfNotExist_def Let_def client_set_def then_promise_def set_reply_def)

lemma step_channel: "channel (snd (step key ns cc e (r, w))) = channel w"
proof (cases e)
  case (Message ch m)
  have "channel (listener key ns cc r m w) = channel w"
    by (cases "m = ''set''"; cases "m = ''del'' \<or> m = ''expire''")
       (simp_all add: listener_set listener_removed listener_other wait_simps)
  then show ?thesis using Message by simp
qed (simp_all add: timeout_callback_eq wait_simps)

lemma run_channel: "channel (snd (run key ns cc es s)) = channel (snd s)"
proof (induction es arbitrary: s)
  case Nil
  then show ?case by simp
next
  case (Cons e es)
  obtain r w where s: "s = (r, w)" by (cases s)
  show ?case using step_channel [of key ns cc e r w] by (simp add: Cons.IH s)
qed

lemma pending_step_settles:
  assumes "outcome w = None" and "subscribed w" and "timer_armed w"
  shows "outcome (snd (step key ns cc (Message (channel w) ''set'') (r, w)))
           = Some (get (prefixed (default_ns ns) key) (Some (default_ns ns)) cc r)"
    and "outcome (snd (step key ns cc (Message (channel w) ''del'') (r, w)))
           = Some (Fulfilled None)"
    and "outcome (snd (step key ns cc (Message (channel w) ''expire'') (r, w)))
           = Some (Fulfilled None)"
    and "outcome (snd (step key ns cc TimerFires (r, w)))
           = Some (get (prefixed (default_ns ns) key) (Some (default_ns ns)) cc r)"
  using assms
  by (simp_all add: listener_set listener_removed timeout_callback_eq wait_simps)

lemma pending_step_only:
  assumes "outcome w = None" and "outcome (snd (step key ns cc e (r, w))) \<noteq> None"
  shows "e = TimerFires \<or> e = Message (channel w) ''set'' \<or> e = Message (channel w) ''del''
       \<or> e = Message (channel w) ''expire''"
proof (cases e)
  case (Message ch m)
  with assms have d: "subscribed w \<and> ch = channel w"
    by (simp split: if_splits)
  from assms Message have "m \<in> {''set'', ''del'', ''expire''}"
    by (intro message_resolves [of w key ns cc ch m r]) simp_all
  with d Message show ?thesis by auto
qed (use assms in simp_all)

section \<open>Waiting for a change\<close>

text \<open>
  C1. If \<open>onChange(k, timeout, ns)\<close> is in flight and a concurrent \<open>set(k, v, ns)\<close>
  succeeds, the arrival of the \<open>set\<close> message should make the call issue a \<open>get\<close> and
  resolve with \<open>v\<close>. The listener passes the already prefixed key to \<open>get\<close>, which
  prefixes it again (lemma \<open>listener_set\<close>): with \<open>k = "k"\<close>, no namespace and
  \<open>v = "X"\<close> on an empty store, the write succeeds and \<open>get("k")\<close> returns \<open>"X"\<close>, but the
  call reads \<open>default:default:k\<close> and resolves with absent.
\<close>

theorem onChange_set_event_resolves_absent:
  "fst (set_key ''k'' ''X'' None None empty_store) = Fulfilled True
   \<and> get ''k'' None None
       (fst (run ''k'' None None
          [CallerSet ''k'' ''X'' None None, Message channel_k ''set'']
          (empty_store, onChange ''k'' 5 None))) = Fulfilled (Some (Raw ''X''))
   \<and> outcome (snd (run ''k'' None None
          [CallerSet ''k'' ''X'' None None, Message channel_k ''set'']
          (empty_store, onChange ''k'' 5 None))) = Some (Fulfilled None)
   \<and> reads (snd (run ''k'' None None
          [CallerSet ''k'' ''X'' None None, Message channel_k ''set'']
          (empty_store, onChange ''k'' 5 None))) = [''default:default:k'']"
  by (simp add: cache_defs)

text \<open>
  C2. If no message arrives before the timer fires, \<open>onChange(k, timeout, ns)\<close> should
  resolve with what \<open>get(k, ns)\<close> returns at that moment. The timer's callback prefixes
  the key twice as well (lemma \<open>timeout_callback_eq\<close>): with \<open>"X"\<close> stored for \<open>"k"\<close>,
  \<open>get("k")\<close> returns \<open>"X"\<close> while the call reads \<open>default:default:k\<close> and resolves
  with absent.
\<close>

theorem onChange_timeout_resolves_absent:
  "get ''k'' None None (snd (set_key ''k'' ''X'' None None empty_store))
     = Fulfilled (Some (Raw ''X''))
   \<and> outcome (snd (step ''k'' None None TimerFires
        (snd (set_key ''k'' ''X'' None None empty_store), onChange ''k'' 1 None)))
     = Some (Fulfilled None)
   \<and> reads (snd (step ''k'' None None TimerFires
        (snd (set_key ''k'' ''X'' None None empty_store), onChange ''k'' 1 None)))
     = [''default:default:k'']"
  by (simp add: cache_defs)

text \<open>
  What the listener does with the two messages it takes for a removal: a \<open>del\<close> or
  \<open>expire\<close> message on the watched channel resolves a pending call with absent whatever
  the store holds, issues no read, and closes the subscription.
\<close>

lemma del_or_expire_message_resolves_absent:
  assumes "message = ''del'' \<or> message = ''expire''" and "outcome w = None" and "subscribed w"
  shows "outcome (snd (step key ns cc (Message (channel w) message) (r, w))) = Some (Fulfilled None)
       \<and> reads (snd (step key ns cc (Message (channel w) message) (r, w))) = reads w
       \<and> \<not> subscribed (snd (step key ns cc (Message (channel w) message) (r, w)))"
  using assms by (simp add: listener_removed wait_simps)

text \<open>
  C3. If the watched entry is removed while \<open>onChange(k, timeout, ns)\<close> is in flight, the
  call should resolve with absent directly, without a further read. An entry that reaches
  its expiry is removed, and Redis announces it with the message \<open>expired\<close>; the listener
  has a case for \<open>expire\<close>, the message of the EXPIRE command, and none for \<open>expired\<close>.
  With \<open>"X"\<close> written for \<open>"k"\<close> with an expiry of one second, two seconds later the
  entry is gone (\<open>get\<close> returns absent, \<open>exists\<close> false), yet after the \<open>expired\<close>
  message the call is still pending and subscribed, and it is the timer that settles it,
  with a read.
\<close>

theorem natural_expiry_leaves_wait_pending:
  "get ''k'' None None (snd (set_key ''k'' ''X'' None (Some 1) empty_store))
     = Fulfilled (Some (Raw ''X''))
   \<and> get ''k'' None None (fst (run ''k'' None None
        [CallerSet ''k'' ''X'' None (Some 1), Elapse 2, Message channel_k ''expired'']
        (empty_store, onChange ''k'' 5 None))) = Fulfilled None
   \<and> exists ''k'' None (fst (run ''k'' None None
        [CallerSet ''k'' ''X'' None (Some 1), Elapse 2, Message channel_k ''expired'']
        (empty_store, onChange ''k'' 5 None))) = Fulfilled False
   \<and> outcome (snd (run ''k'' None None
        [CallerSet ''k'' ''X'' None (Some 1), Elapse 2, Message channel_k ''expired'']
        (empty_store, onChange ''k'' 5 None))) = None
   \<and> subscribed (snd (run ''k'' None None
        [CallerSet ''k'' ''X'' None (Some 1), Elapse 2, Message channel_k ''expired'']
        (empty_store, onChange ''k'' 5 None)))
   \<and> reads (snd (run ''k'' None None
        [CallerSet ''k'' ''X'' None (Some 1), Elapse 2, Message channel_k ''expired'', TimerFires]
        (empty_store, onChange ''k'' 5 None))) = [''default:default:k'']"
  by (simp add: cache_defs)

section \<open>Reads and writes\<close>

text \<open>
  C4, as amended. For every key, namespace and non-empty payload \<open>v\<close>, a successful
  \<open>set(k, v, ns, ttl)\<close> followed by \<open>get(k, ns)\<close>, with no write in between and less
  than \<open>ttl\<close> seconds later, returns exactly \<open>v\<close> when no class constructor is passed,
  and what the constructor makes of \<open>v\<close> when one is. (For the empty payload \<open>get\<close>
  returns absent: the counterexample below.)
\<close>

theorem set_then_get_nonempty:
  assumes "fst (set_key key v ns ttl r) = Fulfilled True" and "v \<noteq> []"
    and "case ttl of None \<Rightarrow> True | Some n \<Rightarrow> int d < n"
  shows "get key ns cc (elapse d (snd (set_key key v ns ttl r))) =
           (case cc of
              None \<Rightarrow> Fulfilled (Some (Raw v))
            | Some parse \<Rightarrow>
                (case parse v of None \<Rightarrow> Rejected FormatError
                 | Some x \<Rightarrow> Fulfilled (Some (Instance x))))"
proof -
  from assms(1) have c: "connected r" and t: "valid_EX ttl"
    using set_key_fulfilled by blast+
  have "live (elapse d (snd (set_key key v ns ttl r))) (prefixed (default_ns ns) key) = Some v"
    using live_after_write [OF t assms(3)] by (simp add: set_key_store [OF c t] elapse_def)
  moreover have "connected (elapse d (snd (set_key key v ns ttl r)))"
    using c by (simp add: set_key_store [OF c t] elapse_def)
  ultimately show ?thesis using assms(2) by (simp add: get_of_live)
qed

theorem set_then_get_nonempty_witness:
  "fst (set_key ''token'' ''abc'' (Some ''auth'') (Some 60) empty_store) = Fulfilled True
   \<and> get ''token'' (Some ''auth'') no_constructor
        (elapse 59 (snd (set_key ''token'' ''abc'' (Some ''auth'') (Some 60) empty_store)))
       = Fulfilled (Some (Raw ''abc''))"
proof -
  have h1: "fst (set_key ''token'' ''abc'' (Some ''auth'') (Some 60) empty_store) = Fulfilled True"
    by (simp add: cache_defs)
  have h2: "''abc'' \<noteq> []" by simp
  have h3: "case Some (60::int) of None \<Rightarrow> True | Some n \<Rightarrow> int 59 < n" by simp
  show ?thesis using set_then_get_nonempty [OF h1 h2 h3, of no_constructor] h1 by simp
qed

text \<open>
  The claim C4 as stated, for every payload, fails at the empty string: the write
  succeeds, and the read returns absent, not the empty string.
\<close>

theorem set_then_get_empty_counterexample:
  "fst (set_key ''k'' [] None None empty_store) = Fulfilled True
   \<and> get ''k'' None None (snd (set_key ''k'' [] None None empty_store))
       \<noteq> Fulfilled (Some (Raw []))"
  by (simp add: cache_defs)

text \<open>
  C5, as amended. For every key and namespace, on a reachable store and with a valid
  expiry (exactly when the call returns, lemma \<open>setIfNotExist_returns\<close>),
  \<open>setIfNotExist(k, v, ns, ttl)\<close> returns true iff no live entry exists for the key, and
  then the entry holds \<open>v\<close>; when a live entry exists it returns false and the store is
  unchanged, so \<open>get(k, ns)\<close> returns what it returned before: the earlier payload when
  that is not empty, absent when it is the empty string.
\<close>

theorem setIfNotExist_writes_iff_absent:
  fixes cc :: "'t deserializer option"
  assumes "connected r" and "valid_EX ttl"
  shows "(fst (setIfNotExist key v ns ttl r) = Fulfilled True
            \<longleftrightarrow> live r (prefixed (default_ns ns) key) = None)
       \<and> (live r (prefixed (default_ns ns) key) = None \<longrightarrow>
            live (snd (setIfNotExist key v ns ttl r)) (prefixed (default_ns ns) key) = Some v)
       \<and> (live r (prefixed (default_ns ns) key) \<noteq> None \<longrightarrow>
            fst (setIfNotExist key v ns ttl r) = Fulfilled False
          \<and> snd (setIfNotExist key v ns ttl r) = r
          \<and> get key ns cc (snd (setIfNotExist key v ns ttl r)) = get key ns cc r)
       \<and> (\<forall>u. live r (prefixed (default_ns ns) key) = Some u \<and> u \<noteq> [] \<longrightarrow>
            get key ns (None :: 't deserializer option) (snd (setIfNotExist key v ns ttl r))
              = Fulfilled (Some (Raw u)))
       \<and> (live r (prefixed (default_ns ns) key) = Some [] \<longrightarrow>
            get key ns cc (snd (setIfNotExist key v ns ttl r)) = Fulfilled None)"
proof (cases "live r (prefixed (default_ns ns) key)")
  case None
  have "live (r\<lparr>entries := (entries r)(prefixed (default_ns ns) key \<mapsto>
             (v, map_option (\<lambda>n. now r + nat n) ttl))\<rparr>) (prefixed (default_ns ns) key) = Some v"
    using assms(2) by (cases ttl) (simp_all add: live_def valid_EX_def)
  then show ?thesis
    using None by (simp add: setIfNotExist_absent [OF assms None])
next
  case (Some u)
  then show ?thesis
    using assms(1)
    by (simp add: setIfNotExist_present [OF assms Some] get_of_live get_of_empty)
qed

theorem setIfNotExist_writes_iff_absent_witness:
  "connected (snd (set_key ''token'' ''abc'' (Some ''auth'') (Some 60) empty_store))
   \<and> valid_EX (Some 60)
   \<and> live (snd (set_key ''token'' ''abc'' (Some ''auth'') (Some 60) empty_store))
        (prefixed (default_ns (Some ''auth'')) ''token'') = Some ''abc''
   \<and> fst (setIfNotExist ''token'' ''xyz'' (Some ''auth'') (Some 60)
        (snd (set_key ''token'' ''abc'' (Some ''auth'') (Some 60) empty_store))) = Fulfilled False
   \<and> get ''token'' (Some ''auth'') no_constructor
        (snd (setIfNotExist ''token'' ''xyz'' (Some ''auth'') (Some 60)
          (snd (set_key ''token'' ''abc'' (Some ''auth'') (Some 60) empty_store))))
       = Fulfilled (Some (Raw ''abc''))"
proof -
  have h1: "connected (snd (set_key ''token'' ''abc'' (Some ''auth'') (Some 60) empty_store))"
    by (simp add: cache_defs)
  have h2: "valid_EX (Some 60)" by (simp add: valid_EX_def)
  have l: "live (snd (set_key ''token'' ''abc'' (Some ''auth'') (Some 60) empty_store))
        (prefixed (default_ns (Some ''auth'')) ''token'') = Some ''abc''"
    by (simp add: cache_defs)
  show ?thesis
    using setIfNotExist_writes_iff_absent [OF h1 h2, of "''token''" "''xyz''" "Some ''auth''" no_constructor]
      h1 h2 l
    by auto
qed

text \<open>
  The claim C5 as stated has the later \<open>get\<close> return the earlier value. With the empty
  string stored, \<open>setIfNotExist\<close> returns false and leaves the store as it was, and
  \<open>get\<close> returns absent, not the empty string.
\<close>

theorem setIfNotExist_empty_payload_counterexample:
  "live (snd (set_key ''k'' [] None None empty_store)) ''default:k'' = Some []
   \<and> fst (setIfNotExist ''k'' ''x'' None None (snd (set_key ''k'' [] None None empty_store)))
       = Fulfilled False
   \<and> snd (setIfNotExist ''k'' ''x'' None None (snd (set_key ''k'' [] None None empty_store)))
       = snd (set_key ''k'' [] None None empty_store)
   \<and> get ''k'' None None
        (snd (setIfNotExist ''k'' ''x'' None None (snd (set_key ''k'' [] None None empty_store))))
       \<noteq> Fulfilled (Some (Raw []))"
  by (simp add: cache_defs)


text \<open>
  C9. After \<open>set(k, "", ns)\<close> succeeds, \<open>get(k, ns)\<close> returns absent while
  \<open>exists(k, ns)\<close> returns true: \<open>get\<close> treats an empty payload as a missing entry.
\<close>

theorem empty_payload_reads_absent:
  assumes "fst (set_key key [] ns ttl r) = Fulfilled True"
  shows "get key ns cc (snd (set_key key [] ns ttl r)) = Fulfilled None
       \<and> exists key ns (snd (set_key key [] ns ttl r)) = Fulfilled True"
proof -
  from assms have c: "connected r" and t: "valid_EX ttl"
    using set_key_fulfilled by blast+
  have l: "live (snd (set_key key [] ns ttl r)) (prefixed (default_ns ns) key) = Some []"
    using c t by (rule live_set_key)
  have c': "connected (snd (set_key key [] ns ttl r))"
    using c by (simp add: set_key_store [OF c t])
  show ?thesis using get_of_empty [OF c' l] exists_of_live [OF c' l] by simp
qed

theorem empty_payload_reads_absent_witness:
  "fst (set_key ''k'' [] (Some ''ns'') None empty_store) = Fulfilled True
   \<and> get ''k'' (Some ''ns'') no_constructor (snd (set_key ''k'' [] (Some ''ns'') None empty_store))
       = Fulfilled None
   \<and> exists ''k'' (Some ''ns'') (snd (set_key ''k'' [] (Some ''ns'') None empty_store))
       = Fulfilled True"
proof -
  have h: "fst (set_key ''k'' [] (Some ''ns'') None empty_store) = Fulfilled True"
    by (simp add: cache_defs)
  show ?thesis using empty_payload_reads_absent [OF h, of no_constructor] h by simp
qed

section \<open>Settling and releasing\<close>

text \<open>
  C6, as amended. A call settles exactly once. While it is pending, a \<open>set\<close> message on
  the watched channel settles it with the outcome of the read its handler issues, a
  \<open>del\<close> or \<open>expire\<close> message settles it with absent, the timer's firing settles it with
  the outcome of its read, and no other event settles it; the event that settles it closes
  the subscription. An outcome, once set, is never changed by a later event. Along every
  sequence of events the call is settled exactly when its subscription has been closed,
  and a timer that has fired has settled it. The timer is not cancelled: it stays armed
  exactly until it fires.
\<close>

theorem wait_settles_once_and_unsubscribes:
  assumes "s = run key ns cc es (r, onChange key secs ns)" and "s' = run key ns cc es' s"
    and "ch = ''__keyspace@0__:'' @ prefixed (default_ns ns) key"
  shows "(outcome (snd s) \<noteq> None \<longrightarrow> outcome (snd s') = outcome (snd s))
       \<and> (outcome (snd s) \<noteq> None) = (\<not> subscribed (snd s))
       \<and> (\<not> subscribed (snd s)) = (0 < quit_calls (snd s))
       \<and> timer_armed (snd s) = (TimerFires \<notin> set es)
       \<and> (TimerFires \<in> set es \<longrightarrow> outcome (snd s) \<noteq> None)
       \<and> (outcome (snd s) = None \<longrightarrow>
            outcome (snd (step key ns cc (Message ch ''set'') s))
              = Some (get (prefixed (default_ns ns) key) (Some (default_ns ns)) cc (fst s))
          \<and> outcome (snd (step key ns cc (Message ch ''del'') s)) = Some (Fulfilled None)
          \<and> outcome (snd (step key ns cc (Message ch ''expire'') s)) = Some (Fulfilled None)
          \<and> outcome (snd (step key ns cc TimerFires s))
              = Some (get (prefixed (default_ns ns) key) (Some (default_ns ns)) cc (fst s)))
       \<and> (\<forall>e. outcome (snd s) = None \<and> outcome (snd (step key ns cc e s)) \<noteq> None \<longrightarrow>
            (e = TimerFires \<or> e = Message ch ''set'' \<or> e = Message ch ''del''
             \<or> e = Message ch ''expire'')
          \<and> \<not> subscribed (snd (step key ns cc e s)))"
proof -
  obtain r1 w1 where s: "s = (r1, w1)" by (cases s)
  have wi: "wait_inv (snd s)"
    unfolding assms(1) by (rule run_invariant) (simp add: wait_inv_def onChange_fields)
  then have inv: "(outcome (snd s) = None) = subscribed (snd s)"
      "subscribed (snd s) = (quit_calls (snd s) = 0)"
      "timer_armed (snd s) \<or> outcome (snd s) \<noteq> None"
    unfolding wait_inv_def by blast+
  have tm: "timer_armed (snd s) = (TimerFires \<notin> set es)"
    unfolding assms(1) by (simp add: run_timer onChange_fields)
  have st: "outcome (snd s) \<noteq> None \<longrightarrow> outcome (snd s') = outcome (snd s)"
    unfolding assms(2) using run_outcome_stable [of s _ key ns cc es'] by auto
  have c: "channel w1 = ch"
    using run_channel [of key ns cc es "(r, onChange key secs ns)"]
    by (simp add: assms(1) [symmetric] s assms(3) onChange_fields)
  have first: "outcome (snd s) = None \<longrightarrow>
            outcome (snd (step key ns cc (Message ch ''set'') s))
              = Some (get (prefixed (default_ns ns) key) (Some (default_ns ns)) cc (fst s))
          \<and> outcome (snd (step key ns cc (Message ch ''del'') s)) = Some (Fulfilled None)
          \<and> outcome (snd (step key ns cc (Message ch ''expire'') s)) = Some (Fulfilled None)
          \<and> outcome (snd (step key ns cc TimerFires s))
              = Some (get (prefixed (default_ns ns) key) (Some (default_ns ns)) cc (fst s))"
  proof
    assume p: "outcome (snd s) = None"
    then have "outcome w1 = None" "subscribed w1" "timer_armed w1"
      using inv by (simp_all add: s)
    from pending_step_settles [OF this, of key ns cc r1] show
      "outcome (snd (step key ns cc (Message ch ''set'') s))
              = Some (get (prefixed (default_ns ns) key) (Some (default_ns ns)) cc (fst s))
          \<and> outcome (snd (step key ns cc (Message ch ''del'') s)) = Some (Fulfilled None)
          \<and> outcome (snd (step key ns cc (Message ch ''expire'') s)) = Some (Fulfilled None)
          \<and> outcome (snd (step key ns cc TimerFires s))
              = Some (get (prefixed (default_ns ns) key) (Some (default_ns ns)) cc (fst s))"
      unfolding s c by simp
  qed
  have only: "\<forall>e. outcome (snd s) = None \<and> outcome (snd (step key ns cc e s)) \<noteq> None \<longrightarrow>
            (e = TimerFires \<or> e = Message ch ''set'' \<or> e = Message ch ''del''
             \<or> e = Message ch ''expire'')
          \<and> \<not> subscribed (snd (step key ns cc e s))"
  proof (intro allI impI)
    fix e
    assume a: "outcome (snd s) = None \<and> outcome (snd (step key ns cc e s)) \<noteq> None"
    then have k: "e = TimerFires \<or> e = Message ch ''set'' \<or> e = Message ch ''del''
             \<or> e = Message ch ''expire''"
      using pending_step_only [of w1 key ns cc e r1] by (simp add: s c)
    have "wait_inv (snd (step key ns cc e s))"
      using wi step_invariant [of w1 key ns cc e r1] by (simp add: s)
    then have "\<not> subscribed (snd (step key ns cc e s))"
      using a unfolding wait_inv_def by blast
    with k show "(e = TimerFires \<or> e = Message ch ''set'' \<or> e = Message ch ''del''
             \<or> e = Message ch ''expire'')
          \<and> \<not> subscribed (snd (step key ns cc e s))" by simp
  qed
  have c2: "(outcome (snd s) \<noteq> None) = (\<not> subscribed (snd s))"
    using inv(1) by auto
  have c3: "(\<not> subscribed (snd s)) = (0 < quit_calls (snd s))"
    using inv(2) by auto
  have c5: "TimerFires \<in> set es \<longrightarrow> outcome (snd s) \<noteq> None"
    using tm inv(3) by auto
  show ?thesis using st c2 c3 tm c5 first only by (intro conjI)
qed

theorem wait_settles_once_and_unsubscribes_witness:
  "outcome (snd (run ''k'' None no_constructor [CallerSet ''default:k'' ''X'' None None]
        (empty_store, onChange ''k'' 5 None))) = None
   \<and> outcome (snd (step ''k'' None no_constructor (Message channel_k ''set'')
        (run ''k'' None no_constructor [CallerSet ''default:k'' ''X'' None None]
          (empty_store, onChange ''k'' 5 None))))
     = Some (Fulfilled (Some (Raw ''X'')))
   \<and> outcome (snd (step ''k'' None no_constructor (Message channel_k ''del'')
        (run ''k'' None no_constructor [CallerSet ''default:k'' ''X'' None None]
          (empty_store, onChange ''k'' 5 None))))
     = Some (Fulfilled None)
   \<and> outcome (snd (step ''k'' None no_constructor TimerFires
        (run ''k'' None no_constructor [CallerSet ''default:k'' ''X'' None None]
          (empty_store, onChange ''k'' 5 None))))
     = Some (Fulfilled (Some (Raw ''X'')))
   \<and> timer_armed (snd (run ''k'' None no_constructor [CallerSet ''default:k'' ''X'' None None]
        (empty_store, onChange ''k'' 5 None)))"
proof -
  have p: "outcome (snd (run ''k'' None no_constructor [CallerSet ''default:k'' ''X'' None None]
        (empty_store, onChange ''k'' 5 None))) = None"
    by (simp add: cache_defs)
  have g: "get (prefixed (default_ns None) ''k'') (Some (default_ns None)) no_constructor
        (fst (run ''k'' None no_constructor [CallerSet ''default:k'' ''X'' None None]
          (empty_store, onChange ''k'' 5 None))) = Fulfilled (Some (Raw ''X''))"
    by (simp add: cache_defs)
  have c: "channel_k = ''__keyspace@0__:'' @ prefixed (default_ns None) ''k''"
    by (simp add: default_ns_def prefixed_def)
  note t = wait_settles_once_and_unsubscribes [OF refl refl c, of no_constructor
        "[CallerSet ''default:k'' ''X'' None None]" empty_store 5 "[]"]
  have m: "TimerFires \<notin> set [CallerSet ''default:k'' ''X'' None None]" by simp
  show ?thesis using t p g m by (simp del: run.simps step.simps)
qed

text \<open>
  The claim C6 as stated has the winning path cancel the timer. After a \<open>set\<close> message has
  settled the call the timer is still armed; when it fires, its callback issues a second
  read and calls \<open>quit\<close> a second time.
\<close>

theorem set_event_leaves_timer_armed_counterexample:
  "outcome (snd (run ''k'' None None [Message channel_k ''set'']
        (empty_store, onChange ''k'' 5 None)))
     = Some (Fulfilled None)
   \<and> timer_armed (snd (run ''k'' None None [Message channel_k ''set'']
        (empty_store, onChange ''k'' 5 None)))
   \<and> quit_calls (snd (run ''k'' None None [Message channel_k ''set'', TimerFires]
        (empty_store, onChange ''k'' 5 None))) = 2
   \<and> length (reads (snd (run ''k'' None None [Message channel_k ''set'', TimerFires]
        (empty_store, onChange ''k'' 5 None)))) = 2"
  by (simp add: cache_defs)



section \<open>Blocking variants\<close>

text \<open>
  C8. For every key, namespace, value, expiry and class constructor, on the same store:
  \<open>getSync\<close> returns \<open>x\<close> exactly when \<open>get\<close> fulfils with \<open>x\<close>, and throws \<open>e\<close>
  exactly when \<open>get\<close> rejects with \<open>e\<close>; \<open>setSync\<close> returns \<open>b\<close> exactly when \<open>set\<close>
  fulfils with \<open>b\<close>, throws \<open>e\<close> exactly when \<open>set\<close> rejects with \<open>e\<close>, and leaves the
  store that \<open>set\<close> leaves.
\<close>

theorem sync_variants_agree:
  "(getSync key namespace classConstructor r = Inr x
      \<longleftrightarrow> get key namespace classConstructor r = Fulfilled x)
   \<and> (getSync key namespace classConstructor r = Inl e
      \<longleftrightarrow> get key namespace classConstructor r = Rejected e)
   \<and> (fst (setSync key v namespace expireSeconds r) = Inr b
      \<longleftrightarrow> fst (set_key key v namespace expireSeconds r) = Fulfilled b)
   \<and> (fst (setSync key v namespace expireSeconds r) = Inl e'
      \<longleftrightarrow> fst (set_key key v namespace expireSeconds r) = Rejected e')
   \<and> snd (setSync key v namespace expireSeconds r)
       = snd (set_key key v namespace expireSeconds r)
   \<and> getSync key namespace classConstructor r
       = deasyncPromise (get key namespace classConstructor r)
   \<and> setSync key v namespace expireSeconds r =
       (deasyncPromise (fst (set_key key v namespace expireSeconds r)),
        snd (set_key key v namespace expireSeconds r))"
  by (simp add: getSync_eq setSync_eq deasyncPromise_Inr deasyncPromise_Inl)

section \<open>Messages that do not resolve\<close>

text \<open>
  C10. A pending call is settled by a message only if the message is \<open>set\<close>, \<open>del\<close> or
  \<open>expire\<close>. While only other messages arrive (\<open>expired\<close> among them), whatever else
  happens to the store, the call stays as it started: pending, subscribed, timer armed;
  the timer's firing then settles it.
\<close>

theorem only_set_del_expire_resolve_early:
  assumes "\<forall>e \<in> set es. e \<noteq> TimerFires
             \<and> (\<forall>ch m. e = Message ch m \<longrightarrow> m \<notin> {''set'', ''del'', ''expire''})"
  shows "snd (run key ns cc es (r, onChange key secs ns)) = onChange key secs ns
       \<and> outcome (snd (run key ns cc es (r, onChange key secs ns))) = None
       \<and> outcome (snd (step key ns cc TimerFires (run key ns cc es (r, onChange key secs ns))))
           \<noteq> None
       \<and> (\<forall>w r' ch m. outcome w = None
             \<and> outcome (snd (step key ns cc (Message ch m) (r', w))) \<noteq> None
             \<longrightarrow> m \<in> {''set'', ''del'', ''expire''})"
proof -
  have q: "snd (run key ns cc es (r, onChange key secs ns)) = onChange key secs ns"
    by (simp add: quiet_run [OF assms])
  obtain r1 where r1: "run key ns cc es (r, onChange key secs ns) = (r1, onChange key secs ns)"
    using q by (cases "run key ns cc es (r, onChange key secs ns)") simp
  have t: "outcome (snd (step key ns cc TimerFires (run key ns cc es (r, onChange key secs ns))))
             \<noteq> None"
    unfolding r1 by (rule timer_settles) (simp add: onChange_fields)
  have m: "\<forall>w r' ch m. outcome w = None
             \<and> outcome (snd (step key ns cc (Message ch m) (r', w))) \<noteq> None
             \<longrightarrow> m \<in> {''set'', ''del'', ''expire''}"
    using message_resolves by blast
  have p: "outcome (snd (run key ns cc es (r, onChange key secs ns))) = None"
    unfolding q by (simp add: onChange_fields)
  show ?thesis using q p t m by (intro conjI)
qed

theorem only_set_del_expire_resolve_early_witness:
  "outcome (snd (run ''k'' None no_constructor
       [CallerSet ''k'' ''X'' None (Some 1), Elapse 2,
        Message channel_k ''expired'', Message channel_k ''hset'']
       (empty_store, onChange ''k'' 5 None))) = None
   \<and> outcome (snd (step ''k'' None no_constructor TimerFires
       (run ''k'' None no_constructor
         [CallerSet ''k'' ''X'' None (Some 1), Elapse 2,
          Message channel_k ''expired'', Message channel_k ''hset'']
         (empty_store, onChange ''k'' 5 None)))) \<noteq> None"
proof -
  have h: "\<forall>e \<in> set [CallerSet ''k'' ''X'' None (Some 1), Elapse 2,
                      Message channel_k ''expired'', Message channel_k ''hset''].
             e \<noteq> TimerFires
             \<and> (\<forall>ch m. e = Message ch m \<longrightarrow> m \<notin> {''set'', ''del'', ''expire''})"
    by simp
  show ?thesis
    using only_set_del_expire_resolve_early
      [OF h, of "''k''" None no_constructor empty_store 5]
    by blast
qed

end
